theory Spec2Isabelle
  imports Main "HOL-Library.Word" "HOL-Library.Monad_Syntax"
begin

section \<open>Data model of the Buttons library\<close>

text \<open>
  The library (\<^verbatim>\<open>buttons.cpp\<close>, \<^verbatim>\<open>Buttons.h\<close>) keeps its whole state in four static
  members of the class \<^verbatim>\<open>Buttons\<close>.  The embedding passes that state explicitly.
  Arduino's \<^verbatim>\<open>byte\<close> is an 8-bit and \<^verbatim>\<open>unsigned long\<close> a 32-bit unsigned integer, on
  the AVR boards as well as on the ARM ones; both are words, so that \<open>+\<close> wraps as it
  does in C++.
\<close>

type_synonym byte = "8 word"
type_synonym ulong = "32 word"

text \<open>\<^verbatim>\<open>static unsigned long DEBOUNCE_DELAY = 50;\<close>\<close>

definition DEBOUNCE_DELAY :: ulong where
  "DEBOUNCE_DELAY = 50"

text \<open>\<^verbatim>\<open>struct Button\<close> and its constructor \<^verbatim>\<open>Button()\<close>.\<close>

record Button =
  currentState :: bool
  changeFlag :: bool
  lastChangeTime :: ulong

definition Button_ctor :: Button where
  "Button_ctor = \<lparr>currentState = False, changeFlag = False, lastChangeTime = 0\<rparr>"

text \<open>
  A pointer to a heap array is \<^verbatim>\<open>nullptr\<close>, a live array with its contents, or a
  pointer whose array has been given back by \<^verbatim>\<open>delete[]\<close>.  Reading or writing through
  anything but a live array inside its bounds is undefined behaviour in C++; the model
  returns \<open>None\<close> there, and every operation that touches the arrays is an
  \<open>option\<close>.
\<close>

datatype 'a ptr = Null | Freed | Array "'a list"

fun load :: "'a ptr \<Rightarrow> nat \<Rightarrow> 'a option" where
  "load (Array xs) i = (if i < length xs then Some (xs ! i) else None)"
| "load Null i = None"
| "load Freed i = None"

fun store :: "'a ptr \<Rightarrow> nat \<Rightarrow> 'a \<Rightarrow> 'a ptr option" where
  "store (Array xs) i v = (if i < length xs then Some (Array (xs[i := v])) else None)"
| "store Null i v = None"
| "store Freed i v = None"

text \<open>\<^verbatim>\<open>delete[] p\<close>: nothing happens on \<^verbatim>\<open>nullptr\<close>; a second delete is undefined.\<close>

fun delete_array :: "'a ptr \<Rightarrow> 'a ptr option" where
  "delete_array Null = Some Null"
| "delete_array (Array xs) = Some Freed"
| "delete_array Freed = None"

text \<open>
  The static members (\<open>s_\<close> stands for the leading underscore of the source's names),
  and what the library changes of the board: the pins it has put into
  \<^verbatim>\<open>INPUT_PULLUP\<close> mode, and the interrupt numbers to which \<^verbatim>\<open>button_ISR\<close> is attached
  in \<^verbatim>\<open>CHANGE\<close> mode.
\<close>

record Buttons =
  s_numberOfButtons :: nat
  s_buttonPins :: "byte ptr"
  s_buttonStatus :: "Button ptr"
  s_begun :: bool
  pullup :: "byte set"
  attached :: "int set"

text \<open>The static initialisers of \<^verbatim>\<open>buttons.cpp\<close>, on a board that has nothing configured.\<close>

definition Buttons_init :: Buttons where
  "Buttons_init =
     \<lparr>s_numberOfButtons = 0, s_buttonPins = Null, s_buttonStatus = Null, s_begun = False,
      pullup = {}, attached = {}\<rparr>"

text \<open>
  What \<^verbatim>\<open>new\<close> answers is not decided by the library: on Arduino a failed \<^verbatim>\<open>new\<close>
  returns \<^verbatim>\<open>nullptr\<close>.  \<open>pinsNew\<close> is \<open>None\<close> when \<^verbatim>\<open>new byte[n]\<close> fails and otherwise
  gives the content found in the fresh, uninitialised bytes; \<open>statusNew\<close> says whether
  \<^verbatim>\<open>new Button[n]\<close> succeeds (its elements are built by \<^verbatim>\<open>Button()\<close>).
\<close>

record allocator =
  pinsNew :: "(nat \<Rightarrow> byte) option"
  statusNew :: bool

definition new_bytes :: "allocator \<Rightarrow> nat \<Rightarrow> byte ptr" where
  "new_bytes al n = (case pinsNew al of None \<Rightarrow> Null | Some junk \<Rightarrow> Array (map junk [0..<n]))"

definition new_Buttons :: "allocator \<Rightarrow> nat \<Rightarrow> Button ptr" where
  "new_Buttons al n = (if statusNew al then Array (replicate n Button_ctor) else Null)"

section \<open>Operations\<close>

text \<open>
  Every loop of the source is \<^verbatim>\<open>for (size_t i = 0; i < n; i++) body\<close> with a bound the
  body does not change.  The loop stops with \<open>None\<close> as soon as its body is undefined.
\<close>

function for_loop :: "nat \<Rightarrow> nat \<Rightarrow> (nat \<Rightarrow> 's \<Rightarrow> 's option) \<Rightarrow> 's \<Rightarrow> 's option" where
  "for_loop i n body s =
     (if i < n then
        (case body i s of
           None \<Rightarrow> None
         | Some s' \<Rightarrow> for_loop (Suc i) n body s')
      else Some s)"
  by pat_completeness auto
termination
  by (relation "measure (\<lambda>(i, n, body, s). n - i)") auto

declare for_loop.simps [simp del]

text \<open>
  \<^verbatim>\<open>Buttons::stop\<close>.  \<^verbatim>\<open>digitalPinToInterrupt\<close> is a macro of the board's core, taken as
  a parameter.
\<close>

definition stop_body :: "(byte \<Rightarrow> int) \<Rightarrow> nat \<Rightarrow> Buttons \<Rightarrow> Buttons option" where
  "stop_body digitalPinToInterrupt i s =
     do {
       pin \<leftarrow> load (s_buttonPins s) i;
       Some (s\<lparr>attached := attached s - {digitalPinToInterrupt pin}\<rparr>)
     }"

definition stop :: "(byte \<Rightarrow> int) \<Rightarrow> Buttons \<Rightarrow> Buttons option" where
  "stop digitalPinToInterrupt s =
     (if \<not> s_begun s then Some s
      else do {
        s1 \<leftarrow> for_loop 0 (s_numberOfButtons s) (stop_body digitalPinToInterrupt) s;
        p \<leftarrow> delete_array (s_buttonPins s1);
        q \<leftarrow> delete_array (s_buttonStatus s1);
        Some (s1\<lparr>s_buttonPins := p, s_buttonStatus := q, s_begun := False\<rparr>)
      })"

text \<open>
  \<^verbatim>\<open>Buttons::begin\<close>.  The arguments \<^verbatim>\<open>(buttonPins, numberOfButtons)\<close> are one value: \<open>None\<close>
  is the null pointer, \<open>Some pins\<close> a pointer to an array of exactly \<open>length pins\<close>
  bytes together with that count, as the header asks of the caller (``Number of buttons
  and size of the buttonPins array'').  So \<open>Some []\<close> is a non-null pointer with a count
  of zero.  \<^verbatim>\<open>delay(10)\<close> changes nothing of the state.
\<close>

definition begin_pins_body :: "byte list \<Rightarrow> nat \<Rightarrow> Buttons \<Rightarrow> Buttons option" where
  "begin_pins_body buttonPins i s =
     do {
       p \<leftarrow> store (s_buttonPins s) i (buttonPins ! i);
       Some (s\<lparr>s_buttonPins := p, pullup := insert (buttonPins ! i) (pullup s)\<rparr>)
     }"

definition begin_attach_body :: "(byte \<Rightarrow> int) \<Rightarrow> byte list \<Rightarrow> nat \<Rightarrow> Buttons \<Rightarrow> Buttons option" where
  "begin_attach_body digitalPinToInterrupt buttonPins i s =
     Some (s\<lparr>attached := insert (digitalPinToInterrupt (buttonPins ! i)) (attached s)\<rparr>)"

definition Buttons_begin ::
  "allocator \<Rightarrow> (byte \<Rightarrow> int) \<Rightarrow> byte list option \<Rightarrow> Buttons \<Rightarrow> (bool \<times> Buttons) option" where
  "Buttons_begin al digitalPinToInterrupt arg s =
     (case arg of
        None \<Rightarrow> Some (False, s)
      | Some buttonPins \<Rightarrow>
          do {
            s1 \<leftarrow> (if s_begun s then stop digitalPinToInterrupt s else Some s);
            let numberOfButtons = length buttonPins;
            let s2 = s1\<lparr>s_numberOfButtons := numberOfButtons,
                        s_buttonPins := new_bytes al numberOfButtons,
                        s_buttonStatus := new_Buttons al numberOfButtons\<rparr>;
            if s_buttonPins s2 = Null \<or> s_buttonStatus s2 = Null then Some (False, s2)
            else do {
              s3 \<leftarrow> for_loop 0 numberOfButtons (begin_pins_body buttonPins) s2;
              s4 \<leftarrow> for_loop 0 numberOfButtons
                      (begin_attach_body digitalPinToInterrupt buttonPins) s3;
              Some (True, s4\<lparr>s_begun := True\<rparr>)
            }
          })"

text \<open>
  \<^verbatim>\<open>Buttons::button_ISR\<close>.  The handler reads two things of the board:
  \<open>digitalRead pin\<close>, \<open>True\<close> for \<^verbatim>\<open>HIGH\<close>, and the millisecond clock.  The source calls
  \<^verbatim>\<open>millis()\<close> twice for a line whose reading differs from its state, once in the
  comparison and once in the assignment, and nothing in the library makes the two
  calls return the same value; \<open>millis k\<close> is what the call number \<open>k\<close> of this
  invocation returns (counted from 0), and the loop carries the number of calls made
  so far next to the state.
\<close>

definition ISR_body ::
  "(byte \<Rightarrow> bool) \<Rightarrow> (nat \<Rightarrow> ulong) \<Rightarrow> nat \<Rightarrow> nat \<times> Buttons \<Rightarrow> (nat \<times> Buttons) option" where
  "ISR_body digitalRead millis i ks =
     (case ks of (k, s) \<Rightarrow>
        do {
          pin \<leftarrow> load (s_buttonPins s) i;
          b \<leftarrow> load (s_buttonStatus s) i;
          let readState = (\<not> digitalRead pin);
          if readState \<noteq> currentState b then
            do {
              let b1 = (if millis k > lastChangeTime b + DEBOUNCE_DELAY
                        then b\<lparr>currentState := readState, changeFlag := True\<rparr> else b);
              let b2 = b1\<lparr>lastChangeTime := millis (Suc k)\<rparr>;
              p \<leftarrow> store (s_buttonStatus s) i b2;
              Some (Suc (Suc k), s\<lparr>s_buttonStatus := p\<rparr>)
            }
          else Some (k, s)
        })"

definition button_ISR :: "(byte \<Rightarrow> bool) \<Rightarrow> (nat \<Rightarrow> ulong) \<Rightarrow> Buttons \<Rightarrow> Buttons option" where
  "button_ISR digitalRead millis s =
     map_option snd (for_loop 0 (s_numberOfButtons s) (ISR_body digitalRead millis) (0, s))"

text \<open>
  The accessors.  \<^verbatim>\<open>_buttonStatus[buttonId].changeFlag = false\<close> writes one field of one
  element.
\<close>

definition clear_changeFlag :: "nat \<Rightarrow> Buttons \<Rightarrow> Buttons option" where
  "clear_changeFlag i s =
     do {
       b \<leftarrow> load (s_buttonStatus s) i;
       p \<leftarrow> store (s_buttonStatus s) i (b\<lparr>changeFlag := False\<rparr>);
       Some (s\<lparr>s_buttonStatus := p\<rparr>)
     }"

text \<open>
  That assignment is the only store of \<^verbatim>\<open>clicked\<close>, \<^verbatim>\<open>down\<close> and \<^verbatim>\<open>changed\<close>.  A state
  alone cannot tell a flag cleared once from a flag cleared twice, so these three are
  written with a log of their stores next to the registry: every execution of the
  assignment appends the index it stores through.
\<close>

type_synonym store_log = "nat list"

definition clear_changeFlag_logged ::
  "nat \<Rightarrow> Buttons \<times> store_log \<Rightarrow> (Buttons \<times> store_log) option" where
  "clear_changeFlag_logged i sl =
     (case sl of (s, l) \<Rightarrow>
        do {
          s1 \<leftarrow> clear_changeFlag i s;
          Some (s1, l @ [i])
        })"

definition down_logged ::
  "nat \<Rightarrow> bool \<Rightarrow> Buttons \<times> store_log \<Rightarrow> (bool \<times> Buttons \<times> store_log) option" where
  "down_logged buttonId clearChangeFlag sl =
     (if \<not> s_begun (fst sl) then Some (False, sl)
      else do {
        sl1 \<leftarrow> (if clearChangeFlag then clear_changeFlag_logged buttonId sl else Some sl);
        b \<leftarrow> load (s_buttonStatus (fst sl1)) buttonId;
        Some (currentState b, sl1)
      })"

definition changed_logged ::
  "nat \<Rightarrow> bool \<Rightarrow> Buttons \<times> store_log \<Rightarrow> (bool \<times> Buttons \<times> store_log) option" where
  "changed_logged buttonId clearChangeFlag sl =
     (if \<not> s_begun (fst sl) then Some (False, sl)
      else do {
        b \<leftarrow> load (s_buttonStatus (fst sl)) buttonId;
        let answer = changeFlag b;
        sl1 \<leftarrow> (if clearChangeFlag then clear_changeFlag_logged buttonId sl else Some sl);
        Some (answer, sl1)
      })"

text \<open>\<^verbatim>\<open>&&\<close> evaluates its right operand only when the left one is true.\<close>

definition clicked_logged ::
  "nat \<Rightarrow> bool \<Rightarrow> Buttons \<times> store_log \<Rightarrow> (bool \<times> Buttons \<times> store_log) option" where
  "clicked_logged buttonId clearChangeFlag sl =
     do {
       (c, sl1) \<leftarrow> changed_logged buttonId clearChangeFlag sl;
       if c then down_logged buttonId False sl1 else Some (False, sl1)
     }"

text \<open>
  What an accessor returns and the registry it leaves: the run from an empty log, the
  log forgotten.
\<close>

definition down :: "nat \<Rightarrow> bool \<Rightarrow> Buttons \<Rightarrow> (bool \<times> Buttons) option" where
  "down buttonId clearChangeFlag s =
     map_option (\<lambda>(r, s1, l). (r, s1)) (down_logged buttonId clearChangeFlag (s, []))"

definition up :: "nat \<Rightarrow> bool \<Rightarrow> Buttons \<Rightarrow> (bool \<times> Buttons) option" where
  "up buttonId clearChangeFlag s =
     do {
       (r, s1) \<leftarrow> down buttonId clearChangeFlag s;
       Some (\<not> r, s1)
     }"

definition changed :: "nat \<Rightarrow> bool \<Rightarrow> Buttons \<Rightarrow> (bool \<times> Buttons) option" where
  "changed buttonId clearChangeFlag s =
     map_option (\<lambda>(r, s1, l). (r, s1)) (changed_logged buttonId clearChangeFlag (s, []))"

definition clicked :: "nat \<Rightarrow> bool \<Rightarrow> Buttons \<Rightarrow> (bool \<times> Buttons) option" where
  "clicked buttonId clearChangeFlag s =
     map_option (\<lambda>(r, s1, l). (r, s1)) (clicked_logged buttonId clearChangeFlag (s, []))"

text \<open>
  Modelled from the spec: \<^verbatim>\<open>Buttons::released\<close> is declared in \<^verbatim>\<open>Buttons.h\<close> and has no
  definition in \<^verbatim>\<open>buttons.cpp\<close>.  The specification gives it as
  ``conceptually \<^verbatim>\<open>changed(...) AND up(...)\<close>, symmetric to \<^verbatim>\<open>clicked\<close>''.
\<close>

definition released :: "nat \<Rightarrow> bool \<Rightarrow> Buttons \<Rightarrow> (bool \<times> Buttons) option" where
  "released buttonId clearChangeFlag s =
     do {
       (c, s1) \<leftarrow> changed buttonId clearChangeFlag s;
       if c then up buttonId False s1 else Some (False, s1)
     }"

definition clearAll_body :: "nat \<Rightarrow> Buttons \<Rightarrow> Buttons option" where
  "clearAll_body i s = clear_changeFlag i s"

definition clearAllChangeFlags :: "Buttons \<Rightarrow> Buttons option" where
  "clearAllChangeFlags s =
     (if \<not> s_begun s then Some s
      else for_loop 0 (s_numberOfButtons s) clearAll_body s)"

definition numberOfButtons :: "Buttons \<Rightarrow> nat" where
  "numberOfButtons s = (if s_begun s then s_numberOfButtons s else 0)"

section \<open>Notions used to state the properties\<close>

text \<open>
  A started registry: the begun flag is set and both arrays are live and hold one element
  per button.  This is the state \<^verbatim>\<open>begin\<close> leaves on success, and the interrupt handler
  and the accessors keep it.
\<close>

definition started :: "Buttons \<Rightarrow> byte list \<Rightarrow> Button list \<Rightarrow> bool" where
  "started s pins st \<longleftrightarrow>
     s_begun s \<and> s_buttonPins s = Array pins \<and> s_buttonStatus s = Array st \<and>
     length pins = s_numberOfButtons s \<and> length st = s_numberOfButtons s"

text \<open>
  The transition rule of the specification for one entry, written from its words:
  \<open>rawState\<close> is the inverted reading, \<open>now_cmp\<close> the clock as the comparison reads
  it and \<open>now_set\<close> the clock as the assignment reads it.
\<close>

definition debounce_transition :: "bool \<Rightarrow> ulong \<Rightarrow> ulong \<Rightarrow> Button \<Rightarrow> Button" where
  "debounce_transition rawState now_cmp now_set e =
     (if rawState = currentState e then e
      else if now_cmp > lastChangeTime e + DEBOUNCE_DELAY
           then e\<lparr>currentState := rawState, changeFlag := True, lastChangeTime := now_set\<rparr>
           else e\<lparr>lastChangeTime := now_set\<rparr>)"

text \<open>
  The number of calls of \<^verbatim>\<open>millis()\<close> one invocation of the handler has made before it
  reaches line \<open>i\<close>: two for every earlier line whose reading differs from its state.
\<close>

definition millis_calls :: "(byte \<Rightarrow> bool) \<Rightarrow> byte list \<Rightarrow> Button list \<Rightarrow> nat \<Rightarrow> nat" where
  "millis_calls digitalRead pins st i =
     2 * length (filter (\<lambda>j. (\<not> digitalRead (pins ! j)) \<noteq> currentState (st ! j)) [0..<i])"

text \<open>The entries after the handler has dealt with the lines before \<open>i\<close>.\<close>

definition ISR_entries ::
  "(byte \<Rightarrow> bool) \<Rightarrow> (nat \<Rightarrow> ulong) \<Rightarrow> byte list \<Rightarrow> Button list \<Rightarrow> nat \<Rightarrow> Button list" where
  "ISR_entries digitalRead millis pins st i =
     map (\<lambda>j. if j < i
               then debounce_transition (\<not> digitalRead (pins ! j))
                      (millis (millis_calls digitalRead pins st j))
                      (millis (Suc (millis_calls digitalRead pins st j))) (st ! j)
               else st ! j) [0..<length st]"

text \<open>The entries after the change flag of entry \<open>i\<close> has been cleared, if \<open>f\<close> asks for it.\<close>

definition clear_at :: "nat \<Rightarrow> bool \<Rightarrow> Button list \<Rightarrow> Button list" where
  "clear_at i f st = (if f then st[i := (st ! i)\<lparr>changeFlag := False\<rparr>] else st)"

text \<open>
  Successive calls \<^verbatim>\<open>changed(buttonId, f)\<close>, one for each flag of the list, with no
  interrupt between them; the answers are collected in order.
\<close>

fun changed_calls :: "nat \<Rightarrow> bool list \<Rightarrow> Buttons \<Rightarrow> (bool list \<times> Buttons) option" where
  "changed_calls buttonId [] s = Some ([], s)"
| "changed_calls buttonId (f # fs) s =
     do {
       (r, s1) \<leftarrow> changed buttonId f s;
       (rs, s2) \<leftarrow> changed_calls buttonId fs s1;
       Some (r # rs, s2)
     }"

text \<open>
  The frame of the main-line accessors: between \<open>s\<close> and \<open>s'\<close> nothing but change flags
  differs, and a flag that is set in \<open>s'\<close> was set in \<open>s\<close>.
\<close>

definition entry_frame :: "Button \<Rightarrow> Button \<Rightarrow> bool" where
  "entry_frame e e' \<longleftrightarrow>
     currentState e' = currentState e \<and> lastChangeTime e' = lastChangeTime e \<and>
     (changeFlag e' \<longrightarrow> changeFlag e)"

fun status_frame :: "Button ptr \<Rightarrow> Button ptr \<Rightarrow> bool" where
  "status_frame (Array st) (Array st') = list_all2 entry_frame st st'"
| "status_frame Null Null = True"
| "status_frame Freed Freed = True"
| "status_frame p q = False"

definition flags_only_cleared :: "Buttons \<Rightarrow> Buttons \<Rightarrow> bool" where
  "flags_only_cleared s s' \<longleftrightarrow>
     s_numberOfButtons s' = s_numberOfButtons s \<and> s_buttonPins s' = s_buttonPins s \<and>
     s_begun s' = s_begun s \<and> pullup s' = pullup s \<and> attached s' = attached s \<and>
     status_frame (s_buttonStatus s) (s_buttonStatus s')"

subsection \<open>Concrete registries and allocators\<close>

text \<open>
  A registry started on pins 2 and 3: the first button is up with nothing pending, the
  second was accepted as pressed at 100 ms and its change has not been read yet.
\<close>

definition example_pins :: "byte list" where
  "example_pins = [2, 3]"

definition example_status :: "Button list" where
  "example_status =
     [\<lparr>currentState = False, changeFlag = False, lastChangeTime = 0\<rparr>,
      \<lparr>currentState = True, changeFlag = True, lastChangeTime = 100\<rparr>]"

definition example_registry :: Buttons where
  "example_registry =
     \<lparr>s_numberOfButtons = 2, s_buttonPins = Array example_pins,
      s_buttonStatus = Array example_status, s_begun = True,
      pullup = {2, 3}, attached = {2, 3}\<rparr>"

text \<open>The same registry with the pending change of the second button cleared.\<close>

definition example_cleared :: Buttons where
  "example_cleared =
     example_registry\<lparr>s_buttonStatus :=
       Array [\<lparr>currentState = False, changeFlag = False, lastChangeTime = 0\<rparr>,
              \<lparr>currentState = True, changeFlag = False, lastChangeTime = 100\<rparr>]\<rparr>"

text \<open>The same registry after \<^verbatim>\<open>stop()\<close>, on a board whose interrupt numbers are the pin numbers.\<close>

definition example_stopped :: Buttons where
  "example_stopped =
     \<lparr>s_numberOfButtons = 2, s_buttonPins = Freed, s_buttonStatus = Freed, s_begun = False,
      pullup = {2, 3}, attached = {}\<rparr>"

text \<open>
  A registry with one button on pin 2, up, whose last divergence was seen when the clock
  read \<open>t\<close>.
\<close>

definition rollover_registry :: "ulong \<Rightarrow> Buttons" where
  "rollover_registry t =
     \<lparr>s_numberOfButtons = 1, s_buttonPins = Array [2],
      s_buttonStatus = Array [\<lparr>currentState = False, changeFlag = False, lastChangeTime = t\<rparr>],
      s_begun = True, pullup = {2}, attached = {2}\<rparr>"

text \<open>An allocator that has memory (fresh bytes read 0), and one that has none.\<close>

definition good_allocator :: allocator where
  "good_allocator = \<lparr>pinsNew = Some (\<lambda>i. 0), statusNew = True\<rparr>"

definition no_memory :: allocator where
  "no_memory = \<lparr>pinsNew = None, statusNew = False\<rparr>"

section \<open>The loop\<close>

lemma for_loop_done: "n \<le> i \<Longrightarrow> for_loop i n body s = Some s"
  by (simp add: for_loop.simps)

lemma for_loop_unfold:
  "i < n \<Longrightarrow> for_loop i n body s = Option.bind (body i s) (for_loop (Suc i) n body)"
  by (subst for_loop.simps) (simp split: option.splits)

text \<open>
  Total correctness: when every iteration is defined on the states of the invariant and
  keeps it, the loop returns, in a state of the invariant.
\<close>

lemma for_loop_invariant:
  assumes "P i s" and "i \<le> n"
    and step: "\<And>j t. i \<le> j \<Longrightarrow> j < n \<Longrightarrow> P j t \<Longrightarrow> \<exists>t'. body j t = Some t' \<and> P (Suc j) t'"
  shows "\<exists>t. for_loop i n body s = Some t \<and> P n t"
  using assms
proof (induction "n - i" arbitrary: i s)
  case 0
  then show ?case by (simp add: for_loop_done)
next
  case (Suc k)
  then have lt: "i < n" by simp
  from Suc.prems(3) [OF le_refl lt Suc.prems(1)]
  obtain t' where t': "body i s = Some t'" "P (Suc i) t'" by blast
  have "\<exists>t. for_loop (Suc i) n body t' = Some t \<and> P n t"
  proof (rule Suc.hyps(1))
    show "k = n - Suc i" using Suc.hyps(2) by simp
    show "P (Suc i) t'" by (rule t'(2))
    show "Suc i \<le> n" using lt by simp
    show "\<exists>t'. body j t = Some t' \<and> P (Suc j) t'" if "Suc i \<le> j" "j < n" "P j t" for j t
      using Suc.prems(3) [of j t] that by simp
  qed
  then show ?case using t'(1) lt by (simp add: for_loop_unfold)
qed

text \<open>Whatever every iteration keeps, the loop keeps, where it returns.\<close>

lemma for_loop_preserves:
  assumes "for_loop i n body s = Some t" and "P s"
    and "\<And>j u u'. P u \<Longrightarrow> body j u = Some u' \<Longrightarrow> P u'"
  shows "P t"
  using assms
proof (induction i n body s rule: for_loop.induct)
  case (1 i n body s)
  show ?case
  proof (cases "i < n")
    case True
    with "1.prems"(1) obtain s' where b: "body i s = Some s'"
      and r: "for_loop (Suc i) n body s' = Some t"
      by (auto simp: for_loop_unfold split: Option.bind_splits)
    have "P s'" using "1.prems"(3) [OF "1.prems"(2) b] .
    from "1.IH" [OF True b r this "1.prems"(3)] show ?thesis .
  next
    case False
    with "1.prems" show ?thesis by (simp add: for_loop_done)
  qed
qed

section \<open>The interrupt handler on a started registry\<close>

lemma started_status_update:
  "started s pins st \<Longrightarrow> length st' = length st \<Longrightarrow>
   started (s\<lparr>s_buttonStatus := Array st'\<rparr>) pins st'"
  by (simp add: started_def)

lemma millis_calls_Suc:
  "millis_calls rd pins st (Suc i) =
     (if (\<not> rd (pins ! i)) \<noteq> currentState (st ! i) then Suc (Suc (millis_calls rd pins st i))
      else millis_calls rd pins st i)"
  by (simp add: millis_calls_def)

lemma ISR_entries_length: "length (ISR_entries rd ms pins st i) = length st"
  by (simp add: ISR_entries_def)

lemma ISR_entries_nth_old:
  "i \<le> j \<Longrightarrow> j < length st \<Longrightarrow> ISR_entries rd ms pins st i ! j = st ! j"
  by (simp add: ISR_entries_def)

lemma ISR_entries_nth_all:
  "i < length st \<Longrightarrow>
   ISR_entries rd ms pins st (length st) ! i =
     debounce_transition (\<not> rd (pins ! i)) (ms (millis_calls rd pins st i))
       (ms (Suc (millis_calls rd pins st i))) (st ! i)"
  by (simp add: ISR_entries_def)

lemma ISR_entries_Suc:
  "i < length st \<Longrightarrow>
   ISR_entries rd ms pins st (Suc i) =
     (ISR_entries rd ms pins st i)
       [i := debounce_transition (\<not> rd (pins ! i)) (ms (millis_calls rd pins st i))
               (ms (Suc (millis_calls rd pins st i))) (st ! i)]"
  by (rule nth_equalityI) (auto simp: ISR_entries_def nth_list_update)

text \<open>One iteration of the handler's loop, from the state the earlier iterations left.\<close>

lemma ISR_body_step:
  assumes "i < length st" "length pins = length st"
    and "s_buttonPins s = Array pins"
    and "s_buttonStatus s = Array (ISR_entries rd ms pins st i)"
  shows "ISR_body rd ms i (millis_calls rd pins st i, s) =
           Some (millis_calls rd pins st (Suc i),
                 s\<lparr>s_buttonStatus := Array (ISR_entries rd ms pins st (Suc i))\<rparr>)"
proof -
  have old: "ISR_entries rd ms pins st i ! i = st ! i"
    using assms(1) by (simp add: ISR_entries_nth_old)
  show ?thesis
  proof (cases "(\<not> rd (pins ! i)) = currentState (st ! i)")
    case True
    have "(ISR_entries rd ms pins st i)[i := st ! i] = ISR_entries rd ms pins st i"
      using list_update_id [of "ISR_entries rd ms pins st i" i] old by simp
    with True have "ISR_entries rd ms pins st (Suc i) = ISR_entries rd ms pins st i"
      using assms(1) by (simp add: ISR_entries_Suc debounce_transition_def)
    moreover have "s\<lparr>s_buttonStatus := Array (ISR_entries rd ms pins st i)\<rparr> = s"
      using assms(4) by simp
    ultimately show ?thesis
      using True assms old
      by (auto simp: ISR_body_def ISR_entries_length millis_calls_Suc)
  next
    case False
    then show ?thesis
      using assms old
      by (auto simp: ISR_body_def ISR_entries_length millis_calls_Suc ISR_entries_Suc
          debounce_transition_def Let_def)
  qed
qed

lemma for_loop_ISR:
  assumes "s_buttonPins s = Array pins" "s_buttonStatus s = Array st"
    and "length pins = n" "length st = n"
  shows "for_loop 0 n (ISR_body rd ms) (0, s) =
           Some (millis_calls rd pins st n,
                 s\<lparr>s_buttonStatus := Array (ISR_entries rd ms pins st n)\<rparr>)"
proof -
  let ?P = "\<lambda>j ks. ks = (millis_calls rd pins st j,
                          s\<lparr>s_buttonStatus := Array (ISR_entries rd ms pins st j)\<rparr>)"
  have e0: "ISR_entries rd ms pins st 0 = st"
    by (rule nth_equalityI) (simp_all add: ISR_entries_def)
  have "\<exists>t. for_loop 0 n (ISR_body rd ms) (0, s) = Some t \<and> ?P n t"
  proof (rule for_loop_invariant [where P = ?P])
    show "?P 0 (0, s)" using assms(2) by (simp add: e0 millis_calls_def)
    show "0 \<le> n" by simp
    show "\<exists>t'. ISR_body rd ms j t = Some t' \<and> ?P (Suc j) t'" if "j < n" "?P j t" for j t
      using that assms
        ISR_body_step [of j st pins "s\<lparr>s_buttonStatus := Array (ISR_entries rd ms pins st j)\<rparr>" rd ms]
      by simp
  qed
  then show ?thesis by simp
qed

lemma button_ISR_started:
  assumes "started s pins st"
  shows "button_ISR rd ms s =
           Some (s\<lparr>s_buttonStatus := Array (ISR_entries rd ms pins st (length st))\<rparr>)"
  using assms for_loop_ISR [of s pins st "s_numberOfButtons s" rd ms]
  by (simp add: started_def button_ISR_def)

section \<open>The accessors without their log\<close>

text \<open>
  The log does not influence what an accessor does: its results are those of the same
  body run on the registry alone.
\<close>

lemma down_unfold:
  "down buttonId clearChangeFlag s =
     (if \<not> s_begun s then Some (False, s)
      else do {
        s1 \<leftarrow> (if clearChangeFlag then clear_changeFlag buttonId s else Some s);
        b \<leftarrow> load (s_buttonStatus s1) buttonId;
        Some (currentState b, s1)
      })"
  by (auto simp: down_def down_logged_def clear_changeFlag_logged_def
      split: Option.bind_split)

lemma changed_unfold:
  "changed buttonId clearChangeFlag s =
     (if \<not> s_begun s then Some (False, s)
      else do {
        b \<leftarrow> load (s_buttonStatus s) buttonId;
        let answer = changeFlag b;
        s1 \<leftarrow> (if clearChangeFlag then clear_changeFlag buttonId s else Some s);
        Some (answer, s1)
      })"
  by (auto simp: changed_def changed_logged_def clear_changeFlag_logged_def Let_def
      split: Option.bind_split)

text \<open>The log of an accessor: the log it was given, and the index of every store it made.\<close>

lemma down_logged_eq:
  "down_logged i f (s, l) =
     map_option (\<lambda>(r, s1). (r, s1, if f \<and> s_begun s then l @ [i] else l)) (down i f s)"
  by (auto simp: down_unfold down_logged_def clear_changeFlag_logged_def
      split: Option.bind_split)

lemma changed_logged_eq:
  "changed_logged i f (s, l) =
     map_option (\<lambda>(r, s1). (r, s1, if f \<and> s_begun s then l @ [i] else l)) (changed i f s)"
  by (auto simp: changed_unfold changed_logged_def clear_changeFlag_logged_def Let_def
      split: Option.bind_split)

lemma clicked_unfold:
  "clicked buttonId clearChangeFlag s =
     do {
       (c, s1) \<leftarrow> changed buttonId clearChangeFlag s;
       if c then down buttonId False s1 else Some (False, s1)
     }"
proof (cases "changed buttonId clearChangeFlag s")
  case None
  then show ?thesis
    by (simp add: clicked_def clicked_logged_def changed_logged_eq)
next
  case (Some cs)
  obtain c s1 where cs: "cs = (c, s1)" by (cases cs)
  show ?thesis
  proof (cases c)
    case True
    with Some cs show ?thesis
      by (cases "down buttonId False s1")
        (auto simp: clicked_def clicked_logged_def changed_logged_eq down_logged_eq)
  next
    case False
    with Some cs show ?thesis
      by (simp add: clicked_def clicked_logged_def changed_logged_eq)
  qed
qed

section \<open>The accessors on a started registry\<close>

lemma clear_at_length: "length (clear_at i f st) = length st"
  by (simp add: clear_at_def)

lemma clear_at_nth:
  "j < length st \<Longrightarrow>
   clear_at i f st ! j = (if f \<and> j = i then (st ! j)\<lparr>changeFlag := False\<rparr> else st ! j)"
  by (simp add: clear_at_def nth_list_update)

lemma clear_at_unflagged:
  "i < length st \<Longrightarrow> \<not> changeFlag (st ! i) \<Longrightarrow> clear_at i f st = st"
  by (simp add: clear_at_def list_update_same_conv)

lemma clear_changeFlag_live:
  "s_buttonStatus s = Array st \<Longrightarrow> i < length st \<Longrightarrow>
   clear_changeFlag i s = Some (s\<lparr>s_buttonStatus := Array (clear_at i True st)\<rparr>)"
  by (simp add: clear_changeFlag_def clear_at_def)

lemma changed_started:
  assumes "started s pins st" "i < length st"
  shows "changed i f s =
           Some (changeFlag (st ! i), s\<lparr>s_buttonStatus := Array (clear_at i f st)\<rparr>)"
  using assms
  by (cases f) (simp_all add: changed_unfold started_def clear_changeFlag_live clear_at_def)

lemma down_started:
  assumes "started s pins st" "i < length st"
  shows "down i f s =
           Some (currentState (st ! i), s\<lparr>s_buttonStatus := Array (clear_at i f st)\<rparr>)"
  using assms
  by (cases f) (simp_all add: down_unfold started_def clear_changeFlag_live clear_at_def)

lemma up_started:
  assumes "started s pins st" "i < length st"
  shows "up i f s =
           Some (\<not> currentState (st ! i), s\<lparr>s_buttonStatus := Array (clear_at i f st)\<rparr>)"
  using assms by (simp add: up_def down_started)

text \<open>The \<^verbatim>\<open>down(buttonId, false)\<close> that \<^verbatim>\<open>clicked\<close> calls after \<^verbatim>\<open>changed\<close> writes nothing.\<close>

lemma down_after_changed:
  assumes "started s pins st" "i < length st"
  shows "down i False (s\<lparr>s_buttonStatus := Array (clear_at i f st)\<rparr>) =
           Some (currentState (st ! i), s\<lparr>s_buttonStatus := Array (clear_at i f st)\<rparr>)"
proof -
  let ?s1 = "s\<lparr>s_buttonStatus := Array (clear_at i f st)\<rparr>"
  have s1: "started ?s1 pins (clear_at i f st)"
    using assms(1) by (simp add: started_status_update clear_at_length)
  show ?thesis
    using down_started [OF s1, of i False] assms(2)
    by (simp add: clear_at_length clear_at_nth) (simp add: clear_at_def)
qed

lemma clicked_started:
  assumes "started s pins st" "i < length st"
  shows "clicked i f s =
           Some (changeFlag (st ! i) \<and> currentState (st ! i),
                 s\<lparr>s_buttonStatus := Array (clear_at i f st)\<rparr>)"
  using assms down_after_changed [OF assms, of f]
  by (simp add: clicked_unfold changed_started)

text \<open>The same accessors with their log: a store is logged exactly when the flag asks for it.\<close>

lemma changed_logged_started:
  assumes "started s pins st" "i < length st"
  shows "changed_logged i f (s, l) =
           Some (changeFlag (st ! i), s\<lparr>s_buttonStatus := Array (clear_at i f st)\<rparr>,
                 if f then l @ [i] else l)"
  using assms changed_started [OF assms, of f]
  by (simp add: changed_logged_eq started_def)

lemma down_logged_started:
  assumes "started s pins st" "i < length st"
  shows "down_logged i f (s, l) =
           Some (currentState (st ! i), s\<lparr>s_buttonStatus := Array (clear_at i f st)\<rparr>,
                 if f then l @ [i] else l)"
  using assms down_started [OF assms, of f]
  by (simp add: down_logged_eq started_def)

lemma down_logged_after_changed:
  assumes "started s pins st" "i < length st"
  shows "down_logged i False (s\<lparr>s_buttonStatus := Array (clear_at i f st)\<rparr>, l) =
           Some (currentState (st ! i), s\<lparr>s_buttonStatus := Array (clear_at i f st)\<rparr>, l)"
  using down_after_changed [OF assms, of f]
  by (simp add: down_logged_eq)

lemma clicked_logged_started:
  assumes "started s pins st" "i < length st"
  shows "clicked_logged i f (s, l) =
           Some (changeFlag (st ! i) \<and> currentState (st ! i),
                 s\<lparr>s_buttonStatus := Array (clear_at i f st)\<rparr>,
                 if f then l @ [i] else l)"
  using changed_logged_started [OF assms, of f l]
    down_logged_after_changed [OF assms, of f "if f then l @ [i] else l"]
  by (simp add: clicked_logged_def)

text \<open>Where the flag of a button is not set, no accessor changes the registry.\<close>

lemma unflagged_accessors:
  assumes "started s pins st" "i < length st" "\<not> changeFlag (st ! i)"
  shows "changed i f s = Some (False, s)"
    and "clicked i f s = Some (False, s)"
    and "down i f s = Some (currentState (st ! i), s)"
    and "up i f s = Some (\<not> currentState (st ! i), s)"
proof -
  have "s\<lparr>s_buttonStatus := Array (clear_at i f st)\<rparr> = s"
    using assms by (simp add: clear_at_unflagged started_def)
  then show "changed i f s = Some (False, s)"
    and "clicked i f s = Some (False, s)"
    and "down i f s = Some (currentState (st ! i), s)"
    and "up i f s = Some (\<not> currentState (st ! i), s)"
    using changed_started [OF assms(1,2), of f] clicked_started [OF assms(1,2), of f]
      down_started [OF assms(1,2), of f] up_started [OF assms(1,2), of f] assms(3)
    by simp_all
qed

lemma not_begun_accessors:
  assumes "\<not> s_begun s"
  shows "down i f s = Some (False, s)" "changed i f s = Some (False, s)"
    "clicked i f s = Some (False, s)" "up i f s = Some (True, s)" "numberOfButtons s = 0"
  using assms by (simp_all add: clicked_unfold down_unfold changed_unfold up_def numberOfButtons_def)

subsection \<open>Repeated calls of \<^verbatim>\<open>changed\<close>\<close>

lemma changed_calls_append:
  "changed_calls i (fs @ gs) s =
     do {
       (rs, s1) \<leftarrow> changed_calls i fs s;
       (qs, s2) \<leftarrow> changed_calls i gs s1;
       Some (rs @ qs, s2)
     }"
  by (induction fs arbitrary: s) (auto split: Option.bind_split prod.splits)

lemma changed_calls_unflagged:
  assumes "started s pins st" "i < length st" "\<not> changeFlag (st ! i)"
  shows "changed_calls i fs s = Some (replicate (length fs) False, s)"
proof (induction fs)
  case Nil
  show ?case by simp
next
  case (Cons f fs)
  have "changed i f s = Some (False, s)"
    using assms by (rule unflagged_accessors)
  with Cons show ?case by simp
qed

lemma changed_calls_flagged_keep:
  assumes "started s pins st" "i < length st" "changeFlag (st ! i)"
  shows "changed_calls i (replicate n False) s = Some (replicate n True, s)"
proof (induction n)
  case 0
  show ?case by simp
next
  case (Suc n)
  have "s\<lparr>s_buttonStatus := Array st\<rparr> = s"
    using assms(1) by (simp add: started_def)
  then have "changed i False s = Some (True, s)"
    using changed_started [OF assms(1,2), of False] assms(3) by (simp add: clear_at_def)
  with Suc show ?case by simp
qed

lemma changed_calls_flagged_clear:
  assumes "started s pins st" "i < length st" "changeFlag (st ! i)"
  shows "changed_calls i (True # fs) s =
           Some (True # replicate (length fs) False,
                 s\<lparr>s_buttonStatus := Array (clear_at i True st)\<rparr>)"
proof -
  let ?s1 = "s\<lparr>s_buttonStatus := Array (clear_at i True st)\<rparr>"
  have s1: "started ?s1 pins (clear_at i True st)"
    using assms(1) by (simp add: started_status_update clear_at_length)
  have "changed_calls i fs ?s1 = Some (replicate (length fs) False, ?s1)"
    using changed_calls_unflagged [OF s1, of i fs] assms(2)
    by (simp add: clear_at_length clear_at_nth)
  moreover have "changed i True s = Some (True, ?s1)"
    using assms by (simp add: changed_started)
  ultimately show ?thesis by simp
qed

section \<open>Starting and stopping\<close>

lemma init_not_begun: "\<not> s_begun Buttons_init"
  by (simp add: Buttons_init_def)

lemma stop_not_begun: "stop d s = Some s' \<Longrightarrow> \<not> s_begun s'"
  by (auto simp: stop_def split: if_splits Option.bind_splits)

lemma example_started: "started example_registry example_pins example_status"
  by (simp add: started_def example_registry_def example_pins_def example_status_def)

text \<open>The loop of \<^verbatim>\<open>stop\<close> detaches the interrupt of every pin of the registry.\<close>

lemma for_loop_stop:
  assumes "s_buttonPins s = Array pins" "length pins = n"
  shows "for_loop 0 n (stop_body d) s = Some (s\<lparr>attached := attached s - d ` set pins\<rparr>)"
proof -
  let ?P = "\<lambda>j t. t = s\<lparr>attached := attached s - d ` set (take j pins)\<rparr>"
  have "\<exists>t. for_loop 0 n (stop_body d) s = Some t \<and> ?P n t"
  proof (rule for_loop_invariant [where P = ?P])
    show "?P 0 s" by simp
    show "0 \<le> n" by simp
    show "\<exists>t'. stop_body d j t = Some t' \<and> ?P (Suc j) t'" if "j < n" "?P j t" for j t
    proof -
      have "attached s - d ` set (take j pins) - {d (pins ! j)} =
            attached s - d ` set (take (Suc j) pins)"
        using that(1) assms(2) by (auto simp: take_Suc_conv_app_nth)
      then show ?thesis
        using that assms by (simp add: stop_body_def)
    qed
  qed
  then show ?thesis using assms by simp
qed

lemma stop_started:
  assumes "started s pins st"
  shows "stop d s =
           Some (s\<lparr>s_buttonPins := Freed, s_buttonStatus := Freed, s_begun := False,
                   attached := attached s - d ` set pins\<rparr>)"
  using assms for_loop_stop [of s pins "s_numberOfButtons s" d]
  by (simp add: stop_def started_def)

text \<open>The first loop of \<^verbatim>\<open>begin\<close> copies the pins and puts each into pull-up mode.\<close>

lemma for_loop_begin_pins:
  assumes "s_buttonPins s = Array junk" "length junk = length pins"
  shows "for_loop 0 (length pins) (begin_pins_body pins) s =
           Some (s\<lparr>s_buttonPins := Array pins, pullup := pullup s \<union> set pins\<rparr>)"
proof -
  let ?P = "\<lambda>j t. t = s\<lparr>s_buttonPins := Array (take j pins @ drop j junk),
                          pullup := pullup s \<union> set (take j pins)\<rparr>"
  have upd: "(take j pins @ drop j junk)[j := pins ! j] = take (Suc j) pins @ drop (Suc j) junk"
    if "j < length pins" for j
    using that assms(2)
    by (simp add: take_Suc_conv_app_nth list_update_append Cons_nth_drop_Suc [symmetric])
  have "\<exists>t. for_loop 0 (length pins) (begin_pins_body pins) s = Some t \<and> ?P (length pins) t"
  proof (rule for_loop_invariant [where P = ?P])
    show "?P 0 s" using assms(1) by simp
    show "0 \<le> length pins" by simp
    show "\<exists>t'. begin_pins_body pins j t = Some t' \<and> ?P (Suc j) t'"
      if "j < length pins" "?P j t" for j t
      using that assms(2) upd [OF that(1)]
      by (auto simp: begin_pins_body_def take_Suc_conv_app_nth)
  qed
  then show ?thesis using assms by simp
qed

text \<open>The second loop attaches the handler to the interrupt of every pin.\<close>

lemma for_loop_begin_attach:
  "for_loop 0 (length pins) (begin_attach_body d pins) s =
     Some (s\<lparr>attached := attached s \<union> d ` set pins\<rparr>)"
proof -
  let ?P = "\<lambda>j t. t = s\<lparr>attached := attached s \<union> d ` set (take j pins)\<rparr>"
  have "\<exists>t. for_loop 0 (length pins) (begin_attach_body d pins) s = Some t \<and> ?P (length pins) t"
  proof (rule for_loop_invariant [where P = ?P])
    show "?P 0 s" by simp
    show "0 \<le> length pins" by simp
    show "\<exists>t'. begin_attach_body d pins j t = Some t' \<and> ?P (Suc j) t'"
      if "j < length pins" "?P j t" for j t
      using that by (auto simp: begin_attach_body_def take_Suc_conv_app_nth)
  qed
  then show ?thesis by simp
qed

lemma begin_null: "Buttons_begin al d None s = Some (False, s)"
  by (simp add: Buttons_begin_def)

text \<open>
  With a non-null list, \<^verbatim>\<open>begin\<close> succeeds exactly when both allocations do; \<open>s1\<close> is the
  registry after the \<^verbatim>\<open>stop()\<close> that \<^verbatim>\<open>begin\<close> calls on a started registry.
\<close>

lemma begin_allocated:
  assumes "(if s_begun s then stop d s else Some s) = Some s1"
    and "pinsNew al \<noteq> None" "statusNew al"
  shows "Buttons_begin al d (Some pins) s =
           Some (True, s1\<lparr>s_numberOfButtons := length pins, s_buttonPins := Array pins,
                          s_buttonStatus := Array (replicate (length pins) Button_ctor),
                          s_begun := True, pullup := pullup s1 \<union> set pins,
                          attached := attached s1 \<union> d ` set pins\<rparr>)"
proof -
  from assms(2) obtain junk where junk: "pinsNew al = Some junk" by auto
  let ?n = "length pins"
  let ?s2 = "s1\<lparr>s_numberOfButtons := ?n, s_buttonPins := Array (map junk [0..<?n]),
                 s_buttonStatus := Array (replicate ?n Button_ctor)\<rparr>"
  have l1: "for_loop 0 ?n (begin_pins_body pins) ?s2 =
              Some (?s2\<lparr>s_buttonPins := Array pins, pullup := pullup ?s2 \<union> set pins\<rparr>)"
    by (rule for_loop_begin_pins [where junk = "map junk [0..<?n]"]) simp_all
  show ?thesis
    unfolding Buttons_begin_def
    using assms(1,3) junk l1
    by (simp add: new_bytes_def new_Buttons_def for_loop_begin_attach Let_def)
qed

lemma begin_not_allocated:
  assumes "(if s_begun s then stop d s else Some s) = Some s1"
    and "pinsNew al = None \<or> \<not> statusNew al"
  shows "Buttons_begin al d (Some pins) s =
           Some (False, s1\<lparr>s_numberOfButtons := length pins,
                           s_buttonPins := new_bytes al (length pins),
                           s_buttonStatus := new_Buttons al (length pins)\<rparr>)"
  unfolding Buttons_begin_def
  using assms by (auto simp: new_bytes_def new_Buttons_def Let_def)

lemma begin_failure_not_begun:
  assumes "Buttons_begin al d (Some pins) s = Some (False, s')"
  shows "\<not> s_begun s'"
proof -
  from assms obtain s1 where s1: "(if s_begun s then stop d s else Some s) = Some s1"
    by (auto simp: Buttons_begin_def split: Option.bind_splits)
  have nb: "\<not> s_begun s1"
    using s1 stop_not_begun [of d s s1] by (auto split: if_splits)
  show ?thesis
  proof (cases "pinsNew al \<noteq> None \<and> statusNew al")
    case True
    with begin_allocated [OF s1, of al pins] assms show ?thesis by simp
  next
    case False
    then have "pinsNew al = None \<or> \<not> statusNew al" by simp
    from begin_not_allocated [OF s1 this, of pins] assms nb show ?thesis by auto
  qed
qed

section \<open>What the accessors leave alone\<close>

lemma entry_frame_refl: "entry_frame e e"
  by (simp add: entry_frame_def)

lemma entry_frame_trans: "entry_frame a b \<Longrightarrow> entry_frame b c \<Longrightarrow> entry_frame a c"
  by (simp add: entry_frame_def)

lemma status_frame_refl: "status_frame p p"
  by (cases p) (simp_all add: list_all2_refl entry_frame_refl)

lemma status_frame_trans: "status_frame p q \<Longrightarrow> status_frame q r \<Longrightarrow> status_frame p r"
proof (cases p; cases q; cases r)
qed (auto intro: list_all2_trans [where ?P1.0 = entry_frame and ?P2.0 = entry_frame]
      entry_frame_trans)

lemma flags_only_cleared_refl: "flags_only_cleared s s"
  by (simp add: flags_only_cleared_def status_frame_refl)

lemma flags_only_cleared_trans:
  assumes "flags_only_cleared s t" "flags_only_cleared t u"
  shows "flags_only_cleared s u"
proof -
  have "status_frame (s_buttonStatus s) (s_buttonStatus u)"
    using assms status_frame_trans [of "s_buttonStatus s" "s_buttonStatus t" "s_buttonStatus u"]
    by (simp add: flags_only_cleared_def)
  then show ?thesis
    using assms by (simp add: flags_only_cleared_def)
qed

lemma clear_changeFlag_frame:
  assumes "clear_changeFlag i s = Some s'"
  shows "flags_only_cleared s s'"
proof (cases "s_buttonStatus s")
  case (Array st)
  with assms have i: "i < length st"
    and s': "s' = s\<lparr>s_buttonStatus := Array (st[i := (st ! i)\<lparr>changeFlag := False\<rparr>])\<rparr>"
    by (auto simp: clear_changeFlag_def split: if_splits)
  have "list_all2 entry_frame st (st[i := (st ! i)\<lparr>changeFlag := False\<rparr>])"
    using i by (auto simp: list_all2_conv_all_nth nth_list_update entry_frame_def)
  with Array s' show ?thesis by (simp add: flags_only_cleared_def)
next
  case Null
  with assms show ?thesis by (simp add: clear_changeFlag_def)
next
  case Freed
  with assms show ?thesis by (simp add: clear_changeFlag_def)
qed

lemma down_frame:
  assumes "down i f s = Some (r, s')"
  shows "flags_only_cleared s s' \<and> (\<not> f \<longrightarrow> s' = s)"
  using assms
  by (auto simp: down_unfold flags_only_cleared_refl clear_changeFlag_frame
      split: if_splits Option.bind_splits)

lemma changed_frame:
  assumes "changed i f s = Some (r, s')"
  shows "flags_only_cleared s s' \<and> (\<not> f \<longrightarrow> s' = s)"
  using assms
  by (auto simp: changed_unfold flags_only_cleared_refl clear_changeFlag_frame
      split: if_splits Option.bind_splits)

lemma up_frame:
  assumes "up i f s = Some (r, s')"
  shows "flags_only_cleared s s' \<and> (\<not> f \<longrightarrow> s' = s)"
proof -
  from assms obtain r' where "down i f s = Some (r', s')"
    by (auto simp: up_def split: Option.bind_splits)
  then show ?thesis by (rule down_frame)
qed

lemma clicked_frame:
  assumes "clicked i f s = Some (r, s')"
  shows "flags_only_cleared s s' \<and> (\<not> f \<longrightarrow> s' = s)"
proof -
  from assms obtain c s1 where c: "changed i f s = Some (c, s1)"
    and d: "(if c then down i False s1 else Some (False, s1)) = Some (r, s')"
    by (auto simp: clicked_unfold split: Option.bind_splits)
  have "s' = s1"
    using d down_frame [of i False s1 r s'] by (auto split: if_splits)
  with changed_frame [OF c] show ?thesis by simp
qed

lemma clearAllChangeFlags_frame:
  assumes "clearAllChangeFlags s = Some s'"
  shows "flags_only_cleared s s'"
proof (cases "s_begun s")
  case False
  with assms show ?thesis by (simp add: clearAllChangeFlags_def flags_only_cleared_refl)
next
  case True
  with assms have l: "for_loop 0 (s_numberOfButtons s) clearAll_body s = Some s'"
    by (simp add: clearAllChangeFlags_def)
  show ?thesis
  proof (rule for_loop_preserves [OF l, where P = "flags_only_cleared s"])
    show "flags_only_cleared s s" by (rule flags_only_cleared_refl)
    show "flags_only_cleared s u'"
      if "flags_only_cleared s u" "clearAll_body j u = Some u'" for j u u'
      using that clear_changeFlag_frame [of j u u']
      by (auto simp: clearAll_body_def intro: flags_only_cleared_trans)
  qed
qed

text \<open>On a started registry the loop of \<^verbatim>\<open>clearAllChangeFlags\<close> returns, every flag cleared.\<close>

lemma for_loop_clearAll:
  assumes "s_buttonStatus s = Array st" "length st = n"
  shows "for_loop 0 n clearAll_body s =
           Some (s\<lparr>s_buttonStatus := Array (map (\<lambda>e. e\<lparr>changeFlag := False\<rparr>) st)\<rparr>)"
proof -
  let ?c = "\<lambda>e::Button. e\<lparr>changeFlag := False\<rparr>"
  let ?P = "\<lambda>j t. t = s\<lparr>s_buttonStatus := Array (map ?c (take j st) @ drop j st)\<rparr>"
  have upd: "(map ?c (take j st) @ drop j st)
               [j := ((map ?c (take j st) @ drop j st) ! j)\<lparr>changeFlag := False\<rparr>]
             = map ?c (take (Suc j) st) @ drop (Suc j) st" if "j < length st" for j
    using that
    by (simp add: take_Suc_conv_app_nth list_update_append nth_append
        Cons_nth_drop_Suc [symmetric])
  have "\<exists>t. for_loop 0 n clearAll_body s = Some t \<and> ?P n t"
  proof (rule for_loop_invariant [where P = ?P])
    show "?P 0 s" using assms(1) by simp
    show "0 \<le> n" by simp
    show "\<exists>t'. clearAll_body j t = Some t' \<and> ?P (Suc j) t'" if "j < n" "?P j t" for j t
      using that assms(2) upd [of j]
      by (simp add: clearAll_body_def clear_changeFlag_def)
  qed
  then show ?thesis using assms(2) by simp
qed

lemma list2_nth: "length xs = 2 \<Longrightarrow> xs = [xs ! 0, xs ! 1]"
  by (cases xs; cases "tl xs") auto

section \<open>The claims\<close>

subsection \<open>C1: the transition of the debounce engine\<close>

text \<open>
  Claim C1.  On a started registry one invocation of \<^verbatim>\<open>button_ISR\<close> returns, changes
  nothing but the entries, and applies to every registered line \<open>i\<close> exactly the
  transition of the specification: the raw state is the negation of the digital read of
  line \<open>i\<close>; an entry whose state equals it is left as it is; otherwise the state becomes
  the raw state and the change flag is set if and only if the clock is strictly greater
  than \<open>lastChangeTime + DEBOUNCE_DELAY\<close> (the 32-bit sum of the source), and in either
  case \<open>lastChangeTime\<close> becomes the clock.  The clock of the comparison is the value
  of the handler's call of \<^verbatim>\<open>millis()\<close> in the comparison, the clock stored is the value of
  its next call.
\<close>

theorem button_ISR_transition:
  assumes "started s pins st"
  shows "\<exists>st'. button_ISR digitalRead millis s = Some (s\<lparr>s_buttonStatus := Array st'\<rparr>) \<and>
           length st' = length st \<and>
           (\<forall>i < length st.
              st' ! i =
                debounce_transition (\<not> digitalRead (pins ! i))
                  (millis (millis_calls digitalRead pins st i))
                  (millis (Suc (millis_calls digitalRead pins st i))) (st ! i))"
proof -
  have "button_ISR digitalRead millis s =
          Some (s\<lparr>s_buttonStatus := Array (ISR_entries digitalRead millis pins st (length st))\<rparr>)"
    using assms by (rule button_ISR_started)
  moreover have "\<forall>i < length st.
      ISR_entries digitalRead millis pins st (length st) ! i =
        debounce_transition (\<not> digitalRead (pins ! i))
          (millis (millis_calls digitalRead pins st i))
          (millis (Suc (millis_calls digitalRead pins st i))) (st ! i)"
    by (simp add: ISR_entries_nth_all)
  ultimately show ?thesis
    using ISR_entries_length by blast
qed

text \<open>
  Both pins read low at 1000 ms (1001 ms at the second reading of the clock): the first
  button is accepted as pressed, the second already is pressed and is left alone.
\<close>

theorem button_ISR_transition_witness:
  "started example_registry example_pins example_status \<and>
   button_ISR (\<lambda>pin. False) (\<lambda>k. if k = 0 then 1000 else 1001) example_registry =
     Some (example_registry\<lparr>s_buttonStatus :=
             Array [\<lparr>currentState = True, changeFlag = True, lastChangeTime = 1001\<rparr>,
                    \<lparr>currentState = True, changeFlag = True, lastChangeTime = 100\<rparr>]\<rparr>)"
proof -
  let ?ms = "\<lambda>k::nat. if k = 0 then 1000 else (1001::ulong)"
  from button_ISR_transition [OF example_started, of "\<lambda>pin. False" ?ms]
  obtain st' where run: "button_ISR (\<lambda>pin. False) ?ms example_registry =
        Some (example_registry\<lparr>s_buttonStatus := Array st'\<rparr>)"
    and len: "length st' = length example_status"
    and each: "\<forall>i < length example_status.
        st' ! i = debounce_transition (\<not> False)
          (?ms (millis_calls (\<lambda>pin. False) example_pins example_status i))
          (?ms (Suc (millis_calls (\<lambda>pin. False) example_pins example_status i)))
          (example_status ! i)"
    by blast
  have l2: "length st' = 2" using len by (simp add: example_status_def)
  have "st' ! 0 = \<lparr>currentState = True, changeFlag = True, lastChangeTime = 1001\<rparr>"
    using each
    by (simp add: example_status_def debounce_transition_def millis_calls_def DEBOUNCE_DELAY_def)
  moreover have "st' ! 1 = \<lparr>currentState = True, changeFlag = True, lastChangeTime = 100\<rparr>"
    using each
    by (simp add: example_status_def debounce_transition_def millis_calls_def DEBOUNCE_DELAY_def)
  ultimately have "st' = [\<lparr>currentState = True, changeFlag = True, lastChangeTime = 1001\<rparr>,
                          \<lparr>currentState = True, changeFlag = True, lastChangeTime = 100\<rparr>]"
    using list2_nth [OF l2] by simp
  with run example_started show ?thesis by simp
qed

subsection \<open>C2: \<^verbatim>\<open>begin\<close> on a null or an empty list\<close>

text \<open>
  Claim C2, as amended.  \<^verbatim>\<open>begin\<close> fails on a null list: it returns false and leaves the
  registry as it was, so it arms no interrupt and does not set the begun flag.  On a
  non-null list of zero lines it does not fail when both allocations succeed: it returns
  true and marks the registry begun, with zero buttons (after stopping a registry that
  was started).
\<close>

theorem begin_null_or_empty:
  "Buttons_begin al d None s = Some (False, s) \<and>
   (\<not> s_begun s \<and> pinsNew al \<noteq> None \<and> statusNew al \<longrightarrow>
      Buttons_begin al d (Some []) s =
        Some (True, s\<lparr>s_numberOfButtons := 0, s_buttonPins := Array [],
                      s_buttonStatus := Array [], s_begun := True\<rparr>)) \<and>
   (started s pins st \<and> pinsNew al \<noteq> None \<and> statusNew al \<longrightarrow>
      Buttons_begin al d (Some []) s =
        Some (True, s\<lparr>s_numberOfButtons := 0, s_buttonPins := Array [],
                      s_buttonStatus := Array [], s_begun := True,
                      attached := attached s - d ` set pins\<rparr>))"
proof (intro conjI impI)
  show "Buttons_begin al d None s = Some (False, s)"
    by (rule begin_null)
next
  assume a: "\<not> s_begun s \<and> pinsNew al \<noteq> None \<and> statusNew al"
  then have "(if s_begun s then stop d s else Some s) = Some s" by simp
  from begin_allocated [OF this, of al "[]"] a
  show "Buttons_begin al d (Some []) s =
        Some (True, s\<lparr>s_numberOfButtons := 0, s_buttonPins := Array [],
                      s_buttonStatus := Array [], s_begun := True\<rparr>)"
    by simp
next
  assume a: "started s pins st \<and> pinsNew al \<noteq> None \<and> statusNew al"
  then have "(if s_begun s then stop d s else Some s) =
      Some (s\<lparr>s_buttonPins := Freed, s_buttonStatus := Freed, s_begun := False,
              attached := attached s - d ` set pins\<rparr>)"
    using stop_started [of s pins st d] by (simp add: started_def)
  from begin_allocated [OF this, of al "[]"] a
  show "Buttons_begin al d (Some []) s =
        Some (True, s\<lparr>s_numberOfButtons := 0, s_buttonPins := Array [],
                      s_buttonStatus := Array [], s_begun := True,
                      attached := attached s - d ` set pins\<rparr>)"
    by simp
qed

theorem begin_null_or_empty_witness:
  "Buttons_begin no_memory uint None example_registry = Some (False, example_registry) \<and>
   \<not> s_begun Buttons_init \<and> pinsNew good_allocator \<noteq> None \<and> statusNew good_allocator \<and>
   Buttons_begin good_allocator uint (Some []) Buttons_init =
     Some (True, Buttons_init\<lparr>s_numberOfButtons := 0, s_buttonPins := Array [],
                   s_buttonStatus := Array [], s_begun := True\<rparr>) \<and>
   started example_registry example_pins example_status \<and>
   Buttons_begin good_allocator uint (Some []) example_registry =
     Some (True, example_registry\<lparr>s_numberOfButtons := 0, s_buttonPins := Array [],
                   s_buttonStatus := Array [], s_begun := True, attached := {}\<rparr>)"
proof -
  have g: "pinsNew good_allocator \<noteq> None \<and> statusNew good_allocator"
    by (simp add: good_allocator_def)
  have "attached example_registry - uint ` set example_pins = {}"
    by (simp add: example_registry_def example_pins_def)
  then show ?thesis
    using begin_null_or_empty [of no_memory uint example_registry]
      begin_null_or_empty [of good_allocator uint Buttons_init]
      begin_null_or_empty [of good_allocator uint example_registry example_pins example_status]
      g init_not_begun example_started
    by simp
qed

text \<open>
  The claim as it stands fails: on a registry that was never started, with memory at
  hand, \<^verbatim>\<open>begin\<close> with a non-null pointer and a count of zero returns true and sets the
  begun flag.
\<close>

theorem begin_empty_counterexample:
  "Buttons_begin good_allocator uint (Some []) Buttons_init =
     Some (True, \<lparr>s_numberOfButtons = 0, s_buttonPins = Array [], s_buttonStatus = Array [],
                  s_begun = True, pullup = {}, attached = {}\<rparr>)"
  by (simp add: Buttons_begin_def Buttons_init_def good_allocator_def new_bytes_def
      new_Buttons_def for_loop.simps)

subsection \<open>C3: the quiet-window test and the wrap of the clock\<close>

text \<open>
  Claim C3 asks that the test be the elapsed time \<open>now - lastChangeTime\<close>, taken modulo
  \<open>2 ^ 32\<close>, against \<open>DEBOUNCE_DELAY\<close>.  The handler compares \<open>now\<close> with the 32-bit sum
  \<open>lastChangeTime + DEBOUNCE_DELAY\<close> instead, and the two differ near the wrap of the
  clock.  A divergence seen 5 ms after the last one, at 4294967291 after 4294967286, is
  accepted, because the sum has wrapped to 40.  A divergence seen 100 ms after the
  last one, at 4 after 4294967200, the clock having wrapped in between, is rejected,
  because the sum 4294967250 has not.
\<close>

theorem debounce_rollover:
  "button_ISR (\<lambda>pin. False) (\<lambda>k. 4294967291) (rollover_registry 4294967286) =
     Some ((rollover_registry 4294967286)\<lparr>s_buttonStatus :=
             Array [\<lparr>currentState = True, changeFlag = True, lastChangeTime = 4294967291\<rparr>]\<rparr>) \<and>
   (4294967291 :: ulong) - 4294967286 = 5 \<and>
   button_ISR (\<lambda>pin. False) (\<lambda>k. 4) (rollover_registry 4294967200) =
     Some ((rollover_registry 4294967200)\<lparr>s_buttonStatus :=
             Array [\<lparr>currentState = False, changeFlag = False, lastChangeTime = 4\<rparr>]\<rparr>) \<and>
   (4 :: ulong) - 4294967200 = 100"
  by (simp add: button_ISR_def rollover_registry_def for_loop.simps ISR_body_def DEBOUNCE_DELAY_def)

subsection \<open>C4: the accessors of a registry that is not begun\<close>

text \<open>
  Claim C4, as amended.  On a registry that is not begun, never started or stopped,
  \<^verbatim>\<open>clicked\<close>, \<^verbatim>\<open>released\<close>, \<^verbatim>\<open>down\<close> and \<^verbatim>\<open>changed\<close> return false for every id and
  every flag, \<^verbatim>\<open>numberOfButtons()\<close> returns 0, and nothing is changed; \<^verbatim>\<open>up\<close> returns
  true, the negation of what \<^verbatim>\<open>down\<close> returns.
\<close>

theorem not_begun_defaults:
  assumes "\<not> s_begun s"
  shows "clicked buttonId f s = Some (False, s) \<and>
         released buttonId f s = Some (False, s) \<and>
         down buttonId f s = Some (False, s) \<and>
         changed buttonId f s = Some (False, s) \<and>
         up buttonId f s = Some (True, s) \<and>
         numberOfButtons s = 0"
  using assms
  by (simp add: clicked_unfold released_def down_unfold changed_unfold up_def numberOfButtons_def)

text \<open>The registry of the static initialisers, and the example registry after \<^verbatim>\<open>stop()\<close>.\<close>

theorem not_begun_defaults_witness:
  "\<not> s_begun Buttons_init \<and>
   clicked 3 True Buttons_init = Some (False, Buttons_init) \<and>
   released 3 True Buttons_init = Some (False, Buttons_init) \<and>
   down 3 True Buttons_init = Some (False, Buttons_init) \<and>
   changed 3 True Buttons_init = Some (False, Buttons_init) \<and>
   up 3 True Buttons_init = Some (True, Buttons_init) \<and>
   numberOfButtons Buttons_init = 0 \<and>
   stop uint example_registry = Some example_stopped \<and>
   changed 1 False example_stopped = Some (False, example_stopped) \<and>
   up 1 False example_stopped = Some (True, example_stopped) \<and>
   numberOfButtons example_stopped = 0"
proof -
  have st: "stop uint example_registry = Some example_stopped"
    using stop_started [OF example_started, of uint]
    by (simp add: example_registry_def example_stopped_def example_pins_def)
  have nb: "\<not> s_begun example_stopped"
    by (simp add: example_stopped_def)
  from not_begun_defaults [OF init_not_begun, of 3 True]
    not_begun_defaults [OF nb, of 1 False] init_not_begun st
  show ?thesis by simp
qed

text \<open>The claim as it stands fails for \<^verbatim>\<open>up\<close>, already on the registry never started.\<close>

theorem up_not_begun_counterexample:
  "up 0 False Buttons_init = Some (True, Buttons_init)"
  by (simp add: up_def down_unfold Buttons_init_def)

subsection \<open>C5: \<^verbatim>\<open>clicked\<close> clears at most once\<close>

text \<open>
  Claim C5.  On a started registry and for a valid id, \<^verbatim>\<open>clicked(id, f)\<close> returns the
  conjunction of what \<^verbatim>\<open>changed(id, f)\<close> returns and of what \<^verbatim>\<open>down(id, false)\<close> returns
  after it.  The log of stores tells how often the flag is cleared: \<^verbatim>\<open>clicked(id, f)\<close>
  adds to the log what its \<^verbatim>\<open>changed(id, f)\<close> adds, one store through entry \<open>id\<close> when
  \<open>f\<close> is true and none when it is false, and its \<^verbatim>\<open>down(id, false)\<close> adds nothing.
  The registry it leaves differs from the one before in nothing but the change flag of
  entry \<open>id\<close>, cleared when \<open>f\<close> is true.
\<close>

theorem clicked_composition:
  assumes "started s pins st" and "buttonId < length st"
  shows "\<exists>c d s1 l1.
           changed_logged buttonId f (s, l) = Some (c, s1, l1) \<and>
           down_logged buttonId False (s1, l1) = Some (d, s1, l1) \<and>
           clicked_logged buttonId f (s, l) = Some (c \<and> d, s1, l1) \<and>
           l1 = (if f then l @ [buttonId] else l) \<and>
           changed buttonId f s = Some (c, s1) \<and>
           down buttonId False s1 = Some (d, s1) \<and>
           clicked buttonId f s = Some (c \<and> d, s1) \<and>
           s1 = s\<lparr>s_buttonStatus :=
                    Array (if f then st[buttonId := (st ! buttonId)\<lparr>changeFlag := False\<rparr>]
                           else st)\<rparr>"
proof -
  let ?s1 = "s\<lparr>s_buttonStatus := Array (clear_at buttonId f st)\<rparr>"
  let ?l1 = "if f then l @ [buttonId] else l"
  have cl: "changed_logged buttonId f (s, l) = Some (changeFlag (st ! buttonId), ?s1, ?l1)"
    using assms by (rule changed_logged_started)
  have dl: "down_logged buttonId False (?s1, ?l1) = Some (currentState (st ! buttonId), ?s1, ?l1)"
    using assms by (rule down_logged_after_changed)
  have kl: "clicked_logged buttonId f (s, l) =
              Some (changeFlag (st ! buttonId) \<and> currentState (st ! buttonId), ?s1, ?l1)"
    using assms by (rule clicked_logged_started)
  have d: "down buttonId False ?s1 = Some (currentState (st ! buttonId), ?s1)"
    using assms by (rule down_after_changed)
  have c: "changed buttonId f s = Some (changeFlag (st ! buttonId), ?s1)"
    using assms by (rule changed_started)
  have k: "clicked buttonId f s =
             Some (changeFlag (st ! buttonId) \<and> currentState (st ! buttonId), ?s1)"
    using assms by (rule clicked_started)
  have e: "?s1 = s\<lparr>s_buttonStatus :=
                    Array (if f then st[buttonId := (st ! buttonId)\<lparr>changeFlag := False\<rparr>]
                           else st)\<rparr>"
    by (simp add: clear_at_def)
  show ?thesis
    by (intro exI [of _ "changeFlag (st ! buttonId)"] exI [of _ "currentState (st ! buttonId)"]
        exI [of _ ?s1] exI [of _ ?l1] conjI cl dl kl c d k e refl)
qed

text \<open>
  The second button of the example registry is pressed with its change pending:
  \<^verbatim>\<open>clicked(1, true)\<close> returns true and has stored once, through entry 1.
\<close>

theorem clicked_composition_witness:
  "started example_registry example_pins example_status \<and> (1::nat) < length example_status \<and>
   changed_logged 1 True (example_registry, []) = Some (True, example_cleared, [1]) \<and>
   down_logged 1 False (example_cleared, [1]) = Some (True, example_cleared, [1]) \<and>
   clicked_logged 1 True (example_registry, []) = Some (True, example_cleared, [1]) \<and>
   clicked 1 True example_registry = Some (True, example_cleared)"
proof -
  have i: "(1::nat) < length example_status" by (simp add: example_status_def)
  from clicked_composition [OF example_started i, of True "[]"]
  obtain c d s1 l1 where cl: "changed_logged 1 True (example_registry, []) = Some (c, s1, l1)"
    and dl: "down_logged 1 False (s1, l1) = Some (d, s1, l1)"
    and kl: "clicked_logged 1 True (example_registry, []) = Some (c \<and> d, s1, l1)"
    and l1: "l1 = [1]"
    and c: "changed 1 True example_registry = Some (c, s1)"
    and d: "down 1 False s1 = Some (d, s1)"
    and k: "clicked 1 True example_registry = Some (c \<and> d, s1)"
    and s1: "s1 = example_registry\<lparr>s_buttonStatus :=
                Array (example_status[1 := (example_status ! 1)\<lparr>changeFlag := False\<rparr>])\<rparr>"
    by auto
  have e: "s1 = example_cleared"
    using s1 by (simp add: example_cleared_def example_status_def)
  have "c" using c
    by (simp add: changed_unfold example_registry_def example_status_def clear_changeFlag_def)
  moreover have "d" using d s1
    by (simp add: down_unfold example_registry_def example_status_def)
  ultimately show ?thesis
    using cl dl kl l1 k e i example_started by simp
qed

subsection \<open>C6: \<^verbatim>\<open>changed\<close> returns the flag as it was before clearing\<close>

text \<open>
  Claim C6.  On a started registry and for a valid id, \<^verbatim>\<open>changed(id, f)\<close> returns the
  change flag of entry \<open>id\<close> as it was before the call, and clears it afterwards if and
  only if \<open>f\<close> is true.  Consequently, after an invocation of the handler that accepts
  a transition of line \<open>id\<close>, and with no further invocation, any number of calls
  \<^verbatim>\<open>changed(id, false)\<close> all return true and leave the registry as it is, and once
  \<^verbatim>\<open>changed(id, true)\<close> has been called, which still returns true, every later call
  returns false, whatever its flag.
\<close>

theorem changed_pre_clear:
  assumes "started s pins st" and "buttonId < length st"
  shows "changed buttonId f s =
           Some (changeFlag (st ! buttonId),
                 s\<lparr>s_buttonStatus :=
                     Array (if f then st[buttonId := (st ! buttonId)\<lparr>changeFlag := False\<rparr>]
                            else st)\<rparr>) \<and>
         ((\<not> digitalRead (pins ! buttonId)) \<noteq> currentState (st ! buttonId) \<and>
          millis (millis_calls digitalRead pins st buttonId) >
            lastChangeTime (st ! buttonId) + DEBOUNCE_DELAY \<longrightarrow>
          (\<exists>t. button_ISR digitalRead millis s = Some t \<and>
               (\<forall>n. changed_calls buttonId (replicate n False) t = Some (replicate n True, t)) \<and>
               (\<forall>n fs. \<exists>t'. changed_calls buttonId (replicate n False @ True # fs) t =
                           Some (replicate n True @ True # replicate (length fs) False, t'))))"
proof (intro conjI impI)
  show "changed buttonId f s =
           Some (changeFlag (st ! buttonId),
                 s\<lparr>s_buttonStatus :=
                     Array (if f then st[buttonId := (st ! buttonId)\<lparr>changeFlag := False\<rparr>]
                            else st)\<rparr>)"
    using changed_started [OF assms, of f] by (simp add: clear_at_def)
next
  assume acc: "(\<not> digitalRead (pins ! buttonId)) \<noteq> currentState (st ! buttonId) \<and>
          millis (millis_calls digitalRead pins st buttonId) >
            lastChangeTime (st ! buttonId) + DEBOUNCE_DELAY"
  let ?st = "ISR_entries digitalRead millis pins st (length st)"
  let ?t = "s\<lparr>s_buttonStatus := Array ?st\<rparr>"
  have run: "button_ISR digitalRead millis s = Some ?t"
    using assms(1) by (rule button_ISR_started)
  have t: "started ?t pins ?st"
    using assms(1) by (simp add: started_status_update ISR_entries_length)
  have i: "buttonId < length ?st"
    using assms(2) by (simp add: ISR_entries_length)
  have flag: "changeFlag (?st ! buttonId)"
    using acc assms(2) by (simp add: ISR_entries_nth_all debounce_transition_def)
  have keep: "changed_calls buttonId (replicate n False) ?t = Some (replicate n True, ?t)" for n
    using t i flag by (rule changed_calls_flagged_keep)
  have clear: "\<exists>t'. changed_calls buttonId (replicate n False @ True # fs) ?t =
                  Some (replicate n True @ True # replicate (length fs) False, t')" for n fs
    using keep [of n] changed_calls_flagged_clear [OF t i flag, of fs]
    by (simp add: changed_calls_append del: changed_calls.simps)
  from run keep clear
  show "\<exists>t. button_ISR digitalRead millis s = Some t \<and>
          (\<forall>n. changed_calls buttonId (replicate n False) t = Some (replicate n True, t)) \<and>
          (\<forall>n fs. \<exists>t'. changed_calls buttonId (replicate n False @ True # fs) t =
                      Some (replicate n True @ True # replicate (length fs) False, t'))"
    by blast
qed

text \<open>
  The first button of the example registry has no change pending; the handler, finding
  its pin low at 1000 ms, accepts it as pressed.
\<close>

theorem changed_pre_clear_witness:
  "started example_registry example_pins example_status \<and> (0::nat) < length example_status \<and>
   changed 0 True example_registry = Some (False, example_registry) \<and>
   (\<exists>t t'. button_ISR (\<lambda>pin. False) (\<lambda>k. 1000) example_registry = Some t \<and>
      changed_calls 0 [False, False] t = Some ([True, True], t) \<and>
      changed_calls 0 [False, True, False, True] t = Some ([True, True, False, False], t'))"
proof -
  have i: "(0::nat) < length example_status" by (simp add: example_status_def)
  have acc: "(\<not> False) \<noteq> currentState (example_status ! 0) \<and>
      (1000::ulong) > lastChangeTime (example_status ! 0) + DEBOUNCE_DELAY"
    by (simp add: example_status_def DEBOUNCE_DELAY_def)
  from changed_pre_clear [OF example_started i, of True "\<lambda>pin. False" "\<lambda>k. 1000"] acc
  have a: "changed 0 True example_registry =
      Some (changeFlag (example_status ! 0),
            example_registry\<lparr>s_buttonStatus :=
              Array (example_status[0 := (example_status ! 0)\<lparr>changeFlag := False\<rparr>])\<rparr>)"
    and b: "\<exists>t. button_ISR (\<lambda>pin. False) (\<lambda>k. 1000) example_registry = Some t \<and>
         (\<forall>n. changed_calls 0 (replicate n False) t = Some (replicate n True, t)) \<and>
         (\<forall>n fs. \<exists>t'. changed_calls 0 (replicate n False @ True # fs) t =
                     Some (replicate n True @ True # replicate (length fs) False, t'))"
    by simp_all
  from b obtain t where run: "button_ISR (\<lambda>pin. False) (\<lambda>k. 1000) example_registry = Some t"
    and keep: "\<And>n. changed_calls 0 (replicate n False) t = Some (replicate n True, t)"
    and clear: "\<And>n fs. \<exists>t'. changed_calls 0 (replicate n False @ True # fs) t =
                     Some (replicate n True @ True # replicate (length fs) False, t')"
    by blast
  from clear [of "Suc 0" "[False, True]"] obtain t' where
    "changed_calls 0 [False, True, False, True] t = Some ([True, True, False, False], t')"
    by (auto simp del: changed_calls.simps)
  moreover from keep [of "Suc (Suc 0)"]
  have "changed_calls 0 [False, False] t = Some ([True, True], t)"
    by (simp del: changed_calls.simps)
  moreover from a have "changed 0 True example_registry = Some (False, example_registry)"
    by (simp add: example_status_def example_registry_def)
  ultimately show ?thesis
    using run i example_started by blast
qed

subsection \<open>C7: \<^verbatim>\<open>up\<close> is the negation of \<^verbatim>\<open>down\<close>\<close>

text \<open>
  Claim C7.  In every registry, started or not, for every id and every flag, \<^verbatim>\<open>up(id, f)\<close>
  is the negation of \<^verbatim>\<open>down(id, f)\<close> called at the same point, and leaves the same
  registry behind; where \<^verbatim>\<open>down\<close> is undefined (an id out of range on a started
  registry), so is \<^verbatim>\<open>up\<close>.
\<close>

theorem up_not_down:
  "(down buttonId f s = None \<and> up buttonId f s = None) \<or>
   (\<exists>r s'. down buttonId f s = Some (r, s') \<and> up buttonId f s = Some (\<not> r, s'))"
  by (cases "down buttonId f s") (auto simp: up_def)

theorem up_not_down_witness:
  "down 1 True example_registry = Some (True, example_cleared) \<and>
   up 1 True example_registry = Some (False, example_cleared) \<and>
   down 0 False Buttons_init = Some (False, Buttons_init) \<and>
   up 0 False Buttons_init = Some (True, Buttons_init)"
proof -
  have d: "down 1 True example_registry = Some (True, example_cleared)"
    by (simp add: down_unfold example_registry_def example_status_def clear_changeFlag_def
        example_cleared_def)
  have e: "down 0 False Buttons_init = Some (False, Buttons_init)"
    by (simp add: down_unfold Buttons_init_def)
  from up_not_down [of 1 True example_registry] up_not_down [of 0 False Buttons_init] d e
  show ?thesis by auto
qed

subsection \<open>C8: a restart discards the entries of the previous session\<close>

text \<open>
  Claim C8.  When \<^verbatim>\<open>begin\<close> succeeds on a registry that is started, the previous registry
  has been stopped, its interrupts detached, and its entries are gone:
  \<^verbatim>\<open>numberOfButtons()\<close> is the number of the new lines, the registry is started on the new
  lines with every entry as \<^verbatim>\<open>Button()\<close> builds it (state false, flag false, time 0),
  and for every valid id \<^verbatim>\<open>changed\<close>, \<^verbatim>\<open>clicked\<close> and \<^verbatim>\<open>down\<close> return false and \<^verbatim>\<open>up\<close>
  returns true, leaving the registry as it is.
\<close>

theorem begin_restart:
  assumes "started s oldPins oldStatus"
    and "Buttons_begin al d (Some newPins) s = Some (True, s')"
  shows "numberOfButtons s' = length newPins \<and>
         started s' newPins
           (replicate (length newPins)
              \<lparr>currentState = False, changeFlag = False, lastChangeTime = 0\<rparr>) \<and>
         attached s' = (attached s - d ` set oldPins) \<union> d ` set newPins \<and>
         (\<forall>buttonId < length newPins. \<forall>f.
            changed buttonId f s' = Some (False, s') \<and>
            clicked buttonId f s' = Some (False, s') \<and>
            down buttonId f s' = Some (False, s') \<and>
            up buttonId f s' = Some (True, s'))"
proof -
  let ?n = "length newPins"
  let ?s1 = "s\<lparr>s_buttonPins := Freed, s_buttonStatus := Freed, s_begun := False,
                attached := attached s - d ` set oldPins\<rparr>"
  have s1: "(if s_begun s then stop d s else Some s) = Some ?s1"
    using assms(1) stop_started [of s oldPins oldStatus d] by (simp add: started_def)
  have ok: "pinsNew al \<noteq> None \<and> statusNew al"
  proof (rule ccontr)
    assume "\<not> (pinsNew al \<noteq> None \<and> statusNew al)"
    then have "pinsNew al = None \<or> \<not> statusNew al" by simp
    from begin_not_allocated [OF s1 this, of newPins] assms(2) show False by simp
  qed
  then have s': "s' = ?s1\<lparr>s_numberOfButtons := ?n, s_buttonPins := Array newPins,
                          s_buttonStatus := Array (replicate ?n Button_ctor),
                          s_begun := True, pullup := pullup ?s1 \<union> set newPins,
                          attached := attached ?s1 \<union> d ` set newPins\<rparr>"
    using begin_allocated [OF s1, of al newPins] assms(2) by simp
  have st: "started s' newPins (replicate ?n Button_ctor)"
    by (simp add: s' started_def)
  have acc: "changed i f s' = Some (False, s') \<and> clicked i f s' = Some (False, s') \<and>
             down i f s' = Some (False, s') \<and> up i f s' = Some (True, s')"
    if "i < ?n" for i f
    using unflagged_accessors [OF st, of i f] that by (simp add: Button_ctor_def)
  have "numberOfButtons s' = ?n"
    "attached s' = (attached s - d ` set oldPins) \<union> d ` set newPins"
    by (simp_all add: s' numberOfButtons_def)
  with st acc show ?thesis by (simp add: Button_ctor_def)
qed

text \<open>The example registry, with a change pending on its second button, restarted on pin 7.\<close>

theorem begin_restart_witness:
  "started example_registry example_pins example_status \<and>
   Buttons_begin good_allocator uint (Some [7]) example_registry =
     Some (True, \<lparr>s_numberOfButtons = 1, s_buttonPins = Array [7],
                  s_buttonStatus =
                    Array [\<lparr>currentState = False, changeFlag = False, lastChangeTime = 0\<rparr>],
                  s_begun = True, pullup = {2, 3, 7}, attached = {7}\<rparr>) \<and>
   numberOfButtons \<lparr>s_numberOfButtons = 1, s_buttonPins = Array [7],
                  s_buttonStatus =
                    Array [\<lparr>currentState = False, changeFlag = False, lastChangeTime = 0\<rparr>],
                  s_begun = True, pullup = {2, 3, 7}, attached = {7}\<rparr> = 1 \<and>
   changed 0 True \<lparr>s_numberOfButtons = 1, s_buttonPins = Array [7],
                  s_buttonStatus =
                    Array [\<lparr>currentState = False, changeFlag = False, lastChangeTime = 0\<rparr>],
                  s_begun = True, pullup = {2, 3, 7}, attached = {7}\<rparr> =
     Some (False, \<lparr>s_numberOfButtons = 1, s_buttonPins = Array [7],
                  s_buttonStatus =
                    Array [\<lparr>currentState = False, changeFlag = False, lastChangeTime = 0\<rparr>],
                  s_begun = True, pullup = {2, 3, 7}, attached = {7}\<rparr>)"
proof -
  let ?s' = "\<lparr>s_numberOfButtons = 1, s_buttonPins = Array [7::byte],
                  s_buttonStatus =
                    Array [\<lparr>currentState = False, changeFlag = False, lastChangeTime = 0\<rparr>],
                  s_begun = True, pullup = {2::byte, 3, 7}, attached = {7::int}\<rparr>"
  have run: "Buttons_begin good_allocator uint (Some [7]) example_registry = Some (True, ?s')"
    by (auto simp: Buttons_begin_def example_registry_def example_pins_def good_allocator_def
        stop_def stop_body_def for_loop.simps new_bytes_def new_Buttons_def Button_ctor_def
        begin_pins_body_def begin_attach_body_def)
  from begin_restart [OF example_started run] run example_started
  show ?thesis by simp
qed

subsection \<open>C9: the registry after a failed \<^verbatim>\<open>begin\<close>\<close>

text \<open>
  Claim C9, as amended.  When \<^verbatim>\<open>begin\<close> returns failure, either the line list was null
  and the registry is left exactly as it was, or the list was not null (an allocation
  failed) and the registry is left not begun: the begun flag is false,
  \<^verbatim>\<open>numberOfButtons()\<close> returns 0, and the accessors return what they return on a registry
  that is not begun, false for \<^verbatim>\<open>down\<close>, \<^verbatim>\<open>changed\<close> and \<^verbatim>\<open>clicked\<close> and true for
  \<^verbatim>\<open>up\<close>.
\<close>

theorem begin_failure_state:
  assumes "Buttons_begin al d arg s = Some (False, s')"
  shows "(arg = None \<and> s' = s) \<or>
         (arg \<noteq> None \<and> \<not> s_begun s' \<and> numberOfButtons s' = 0 \<and>
          (\<forall>buttonId f.
             down buttonId f s' = Some (False, s') \<and>
             changed buttonId f s' = Some (False, s') \<and>
             clicked buttonId f s' = Some (False, s') \<and>
             up buttonId f s' = Some (True, s')))"
proof (cases arg)
  case None
  with assms show ?thesis by (simp add: begin_null)
next
  case (Some pins)
  with assms have "\<not> s_begun s'" by (simp add: begin_failure_not_begun)
  with Some show ?thesis by (simp add: not_begun_accessors)
qed

text \<open>The example registry, restarted on pin 5 with no memory left, and restarted on a null list.\<close>

theorem begin_failure_state_witness:
  "Buttons_begin no_memory uint (Some [5]) example_registry =
     Some (False, \<lparr>s_numberOfButtons = 1, s_buttonPins = Null, s_buttonStatus = Null,
                   s_begun = False, pullup = {2, 3}, attached = {}\<rparr>) \<and>
   numberOfButtons \<lparr>s_numberOfButtons = 1, s_buttonPins = Null, s_buttonStatus = Null,
                   s_begun = False, pullup = {2, 3}, attached = {}\<rparr> = 0 \<and>
   changed 0 True \<lparr>s_numberOfButtons = 1, s_buttonPins = Null, s_buttonStatus = Null,
                   s_begun = False, pullup = {2, 3}, attached = {}\<rparr> =
     Some (False, \<lparr>s_numberOfButtons = 1, s_buttonPins = Null, s_buttonStatus = Null,
                   s_begun = False, pullup = {2, 3}, attached = {}\<rparr>) \<and>
   Buttons_begin no_memory uint None example_registry = Some (False, example_registry)"
proof -
  let ?s' = "\<lparr>s_numberOfButtons = 1, s_buttonPins = Null, s_buttonStatus = Null,
                   s_begun = False, pullup = {2::byte, 3}, attached = {}::int set\<rparr>"
  have run: "Buttons_begin no_memory uint (Some [5]) example_registry = Some (False, ?s')"
    by (simp add: Buttons_begin_def example_registry_def example_pins_def no_memory_def
        stop_def stop_body_def for_loop.simps new_bytes_def new_Buttons_def)
  have null: "Buttons_begin no_memory uint None example_registry = Some (False, example_registry)"
    by (simp add: Buttons_begin_def)
  from begin_failure_state [OF run] begin_failure_state [OF null] run null
  show ?thesis by simp
qed

text \<open>
  The claim as it stands fails on a null list given to a started registry: \<^verbatim>\<open>begin\<close>
  returns failure and the registry is still begun, with its two buttons and the pending
  change of the second.
\<close>

theorem begin_null_started_counterexample:
  "Buttons_begin good_allocator uint None example_registry = Some (False, example_registry) \<and>
   s_begun example_registry \<and> numberOfButtons example_registry = 2 \<and>
   changed 1 False example_registry = Some (True, example_registry)"
  by (simp add: Buttons_begin_def example_registry_def numberOfButtons_def changed_unfold
      example_status_def)

subsection \<open>C10: the accessors write nothing but change flags\<close>

text \<open>
  Claim C10, as amended.  On a registry that is not begun, whatever the id, and on a
  started registry for an id below the number of its buttons, \<^verbatim>\<open>down\<close>, \<^verbatim>\<open>up\<close>,
  \<^verbatim>\<open>changed\<close> and \<^verbatim>\<open>clicked\<close> return, and the registry they leave differs from the one
  before in change flags only, none of which has gone from false to true, so that the
  state and the time of every entry are as before; called with
  \<^verbatim>\<open>clearChangeFlag = false\<close> they leave the registry as it was.  On the same registries
  \<^verbatim>\<open>clearAllChangeFlags\<close> returns within the same frame, and on a started registry it
  leaves every flag cleared.
\<close>

theorem accessors_frame:
  assumes "\<not> s_begun s \<or> (started s pins st \<and> buttonId < length st)"
  shows "(\<exists>r s'. down buttonId f s = Some (r, s') \<and>
                  flags_only_cleared s s' \<and> (\<not> f \<longrightarrow> s' = s)) \<and>
         (\<exists>r s'. up buttonId f s = Some (r, s') \<and>
                  flags_only_cleared s s' \<and> (\<not> f \<longrightarrow> s' = s)) \<and>
         (\<exists>r s'. changed buttonId f s = Some (r, s') \<and>
                  flags_only_cleared s s' \<and> (\<not> f \<longrightarrow> s' = s)) \<and>
         (\<exists>r s'. clicked buttonId f s = Some (r, s') \<and>
                  flags_only_cleared s s' \<and> (\<not> f \<longrightarrow> s' = s)) \<and>
         (\<exists>s'. clearAllChangeFlags s = Some s' \<and> flags_only_cleared s s') \<and>
         (started s pins st \<longrightarrow>
            clearAllChangeFlags s =
              Some (s\<lparr>s_buttonStatus := Array (map (\<lambda>e. e\<lparr>changeFlag := False\<rparr>) st)\<rparr>))"
proof -
  have all: "started s pins st \<longrightarrow>
      clearAllChangeFlags s =
        Some (s\<lparr>s_buttonStatus := Array (map (\<lambda>e. e\<lparr>changeFlag := False\<rparr>) st)\<rparr>)"
    using for_loop_clearAll [of s st "s_numberOfButtons s"]
    by (simp add: clearAllChangeFlags_def started_def)
  obtain r1 s1 r2 s2 r3 s3 r4 s4 s5 where
    d: "down buttonId f s = Some (r1, s1)" and u: "up buttonId f s = Some (r2, s2)" and
    c: "changed buttonId f s = Some (r3, s3)" and k: "clicked buttonId f s = Some (r4, s4)" and
    a: "clearAllChangeFlags s = Some s5"
  proof (cases "s_begun s")
    case False
    then have "clearAllChangeFlags s = Some s" by (simp add: clearAllChangeFlags_def)
    with that not_begun_accessors(1-4) [OF False, of buttonId f] show ?thesis by blast
  next
    case True
    with assms have st: "started s pins st" and i: "buttonId < length st" by simp_all
    from that down_started [OF st i, of f] up_started [OF st i, of f]
      changed_started [OF st i, of f] clicked_started [OF st i, of f] all st
    show ?thesis by blast
  qed
  from d u c k a all down_frame [OF d] up_frame [OF u] changed_frame [OF c] clicked_frame [OF k]
    clearAllChangeFlags_frame [OF a]
  show ?thesis by (intro conjI) blast+
qed

text \<open>
  The second button of the example registry, and button 5 of the registry never started.
\<close>

theorem accessors_frame_witness:
  "started example_registry example_pins example_status \<and> (1::nat) < length example_status \<and>
   down 1 True example_registry = Some (True, example_cleared) \<and>
   up 1 True example_registry = Some (False, example_cleared) \<and>
   changed 1 True example_registry = Some (True, example_cleared) \<and>
   clicked 1 True example_registry = Some (True, example_cleared) \<and>
   clearAllChangeFlags example_registry = Some example_cleared \<and>
   flags_only_cleared example_registry example_cleared \<and>
   changed 1 False example_registry = Some (True, example_registry) \<and>
   \<not> s_begun Buttons_init \<and>
   changed 5 True Buttons_init = Some (False, Buttons_init) \<and>
   clearAllChangeFlags Buttons_init = Some Buttons_init \<and>
   flags_only_cleared Buttons_init Buttons_init"
proof -
  have i: "(1::nat) < length example_status" by (simp add: example_status_def)
  have d: "down 1 True example_registry = Some (True, example_cleared)"
    and u: "up 1 True example_registry = Some (False, example_cleared)"
    and c: "changed 1 True example_registry = Some (True, example_cleared)"
    and k: "clicked 1 True example_registry = Some (True, example_cleared)"
    and n: "changed 1 False example_registry = Some (True, example_registry)"
    by (simp_all add: down_unfold up_def changed_unfold clicked_unfold clear_changeFlag_def
        example_registry_def example_status_def example_cleared_def)
  have m: "map (\<lambda>e. e\<lparr>changeFlag := False\<rparr>) example_status =
      [\<lparr>currentState = False, changeFlag = False, lastChangeTime = 0\<rparr>,
       \<lparr>currentState = True, changeFlag = False, lastChangeTime = 100\<rparr>]"
    by (simp add: example_status_def)
  have h1: "\<not> s_begun example_registry \<or>
      (started example_registry example_pins example_status \<and> (1::nat) < length example_status)"
    using example_started i by simp
  have h2: "\<not> s_begun Buttons_init \<or>
      (started Buttons_init example_pins example_status \<and> (5::nat) < length example_status)"
    using init_not_begun by simp
  from accessors_frame [OF h1, of True] d example_started
  have a: "clearAllChangeFlags example_registry = Some example_cleared"
    and fr: "flags_only_cleared example_registry example_cleared"
    by (auto simp: m example_cleared_def)
  from accessors_frame [OF h2, of True]
  have b: "changed 5 True Buttons_init = Some (False, Buttons_init)"
    and e: "clearAllChangeFlags Buttons_init = Some Buttons_init"
    and g: "flags_only_cleared Buttons_init Buttons_init"
    using init_not_begun
    by (auto simp: changed_unfold clearAllChangeFlags_def)
  from i d u c k n a fr b e g example_started init_not_begun
  show ?thesis by simp
qed

text \<open>
  The claim as it stands, for every id, fails on a started registry: the example has two
  buttons, and with id 2 every one of the four accessors goes through
  \<^verbatim>\<open>_buttonStatus[2]\<close>, outside the array, where nothing is defined about what it returns
  or leaves behind.
\<close>

theorem accessors_out_of_range_counterexample:
  "s_begun example_registry \<and> numberOfButtons example_registry = 2 \<and>
   down 2 True example_registry = None \<and>
   up 2 True example_registry = None \<and>
   changed 2 True example_registry = None \<and>
   clicked 2 True example_registry = None \<and>
   down 2 False example_registry = None \<and>
   changed 2 False example_registry = None"
  by (simp add: down_unfold up_def changed_unfold clicked_unfold clear_changeFlag_def
      numberOfButtons_def example_registry_def example_status_def)

end
